theory Spec2Isabelle
  imports Complex_Main
begin

section \<open>Word-count scorer of main.go\<close>

text \<open>
  The program scores a text by its number of white-space separated words, interpolating
  linearly between \<open>MinScore\<close> and \<open>MaxScore\<close>. Go's \<open>int\<close> is the 64-bit signed integer,
  modelled by \<open>int\<close> with the wrap-around written out; a \<open>float64\<close> is modelled by the
  rational number it denotes, every operation rounding its exact result to 53 significant
  bits, ties to even. All operands come from 64-bit integers, so every intermediate value
  is zero or has a magnitude between \<open>2 powi -63\<close> and \<open>2 powi 65\<close>: neither subnormal
  numbers nor infinities arise, and the exponent is left unbounded.
\<close>

subsection \<open>Machine integers and float64\<close>

definition wrap64 :: "int \<Rightarrow> int" where
  "wrap64 n = (n + 2 ^ 63) mod 2 ^ 64 - 2 ^ 63"

definition in_int64 :: "int \<Rightarrow> bool" where
  "in_int64 n = (- (2 ^ 63) \<le> n \<and> n < 2 ^ 63)"

function bitlen :: "int \<Rightarrow> nat" where
  "bitlen n = (if n \<le> 0 then 0 else Suc (bitlen (n div 2)))"
  by pat_completeness auto
termination
  by (relation "measure nat") auto

declare bitlen.simps [simp del]

text \<open>The binary exponent of a positive rational: \<open>2 powi ilog2 x \<le> x < 2 powi (ilog2 x + 1)\<close>.\<close>

definition ilog2 :: "rat \<Rightarrow> int" where
  "ilog2 x = (if 1 \<le> x then int (bitlen \<lfloor>x\<rfloor>) - 1
              else - int (bitlen (\<lceil>1 / x\<rceil> - 1)))"

definition round_even :: "rat \<Rightarrow> int" where
  "round_even y =
     (let f = \<lfloor>y\<rfloor>; d = y - of_int f
      in if d < 1 / 2 then f else if 1 / 2 < d then f + 1
         else if even f then f else f + 1)"

text \<open>Rounding of an exact result to the nearest float64, ties to even.\<close>

definition fl :: "rat \<Rightarrow> rat" where
  "fl x = (if x = 0 then 0
           else let u = 2 powi (ilog2 \<bar>x\<bar> - 52) in of_int (round_even (x / u)) * u)"

definition float64 :: "int \<Rightarrow> rat" where
  "float64 n = fl (of_int n)"

definition fadd :: "rat \<Rightarrow> rat \<Rightarrow> rat" where
  "fadd a b = fl (a + b)"

definition fmul :: "rat \<Rightarrow> rat \<Rightarrow> rat" where
  "fmul a b = fl (a * b)"

definition fdiv :: "rat \<Rightarrow> rat \<Rightarrow> rat" where
  "fdiv a b = fl (a / b)"

text \<open>\<open>math.Round\<close>: the nearest integer, halves away from zero.\<close>

definition Round :: "rat \<Rightarrow> rat" where
  "Round x = (if 0 \<le> x then of_int \<lfloor>x + 1 / 2\<rfloor> else - of_int \<lfloor>- x + 1 / 2\<rfloor>)"

text \<open>
  The conversion \<open>int(f)\<close> truncates towards zero. When the truncated value is not an
  int64 the language leaves the result to the implementation: \<open>conv\<close> is that choice
  (amd64 yields \<open>- 2 ^ 63\<close>, arm64 saturates).
\<close>

definition int_of_float64 :: "(rat \<Rightarrow> int) \<Rightarrow> rat \<Rightarrow> int" where
  "int_of_float64 conv x =
     (let z = (if 0 \<le> x then \<lfloor>x\<rfloor> else \<lceil>x\<rceil>)
      in if in_int64 z then z else wrap64 (conv x))"

definition conv_amd64 :: "rat \<Rightarrow> int" where
  "conv_amd64 x = - (2 ^ 63)"

definition conv_arm64 :: "rat \<Rightarrow> int" where
  "conv_arm64 x = (if 0 \<le> x then 2 ^ 63 - 1 else - (2 ^ 63))"

subsection \<open>Configuration and construction\<close>

record WordScorerConfig =
  MinScore :: int
  MaxScore :: int
  ThresholdWordsForMaxScore :: int

record WordScorer =
  config :: WordScorerConfig

type_synonym error = string

text \<open>
  \<open>NewWordScorer\<close> returns, as its error, the result of \<open>log.Output(1, msg)\<close>. That call
  writes the message to the standard logger and returns the error of the write, which is
  nil when the write succeeds. \<open>logOutput\<close> is that result for a given message; a nil
  pointer and a nil error are \<open>None\<close>.
\<close>

definition NewWordScorer ::
  "(string \<Rightarrow> error option) \<Rightarrow> WordScorerConfig \<Rightarrow> WordScorer option \<times> error option" where
  "NewWordScorer logOutput c =
     (if MinScore c < 0 then (None, logOutput ''MinScore cannot be negative'')
      else if MaxScore c < MinScore c
        then (None, logOutput ''MaxScore cannot be less than MinScore'')
      else if ThresholdWordsForMaxScore c \<le> 0
        then (None, logOutput ''ThresholdWordsForMaxScore must be positive'')
      else (Some \<lparr>config = c\<rparr>, None))"

text \<open>The invariants of the configuration, over 64-bit integers.\<close>

definition valid_config :: "WordScorerConfig \<Rightarrow> bool" where
  "valid_config c =
     (0 \<le> MinScore c \<and> MinScore c \<le> MaxScore c \<and> 0 < ThresholdWordsForMaxScore c
      \<and> in_int64 (MinScore c) \<and> in_int64 (MaxScore c)
      \<and> in_int64 (ThresholdWordsForMaxScore c))"

text \<open>A write to the logger that succeeds, and one that fails.\<close>

definition log_ok :: "string \<Rightarrow> error option" where
  "log_ok msg = None"

definition log_closed :: "string \<Rightarrow> error option" where
  "log_closed msg = Some ''write /dev/stderr: file already closed''"

subsection \<open>Counting words\<close>

text \<open>
  A Go string is a byte sequence. \<open>strings.Fields\<close> reads it as UTF-8, an invalid byte
  being the rune \<open>U+FFFD\<close> of width 1, and splits around runs of runes for which
  \<open>unicode.IsSpace\<close> holds.
\<close>

definition RuneError :: nat where
  "RuneError = 0xFFFD"

definition cont_byte :: "nat \<Rightarrow> bool" where
  "cont_byte b = (0x80 \<le> b \<and> b \<le> 0xBF)"

definition DecodeRune :: "nat list \<Rightarrow> nat \<times> nat" where
  "DecodeRune s =
     (case s of
        [] \<Rightarrow> (RuneError, 0)
      | b0 # r \<Rightarrow>
          if b0 < 0x80 then (b0, 1)
          else if 0xC2 \<le> b0 \<and> b0 \<le> 0xDF then
            (case r of
               b1 # _ \<Rightarrow>
                 if cont_byte b1 then ((b0 - 0xC0) * 64 + (b1 - 0x80), 2) else (RuneError, 1)
             | _ \<Rightarrow> (RuneError, 1))
          else if 0xE0 \<le> b0 \<and> b0 \<le> 0xEF then
            (case r of
               b1 # b2 # _ \<Rightarrow>
                 if (if b0 = 0xE0 then 0xA0 else 0x80) \<le> b1
                    \<and> b1 \<le> (if b0 = 0xED then 0x9F else 0xBF) \<and> cont_byte b2
                 then ((b0 - 0xE0) * 4096 + (b1 - 0x80) * 64 + (b2 - 0x80), 3)
                 else (RuneError, 1)
             | _ \<Rightarrow> (RuneError, 1))
          else if 0xF0 \<le> b0 \<and> b0 \<le> 0xF4 then
            (case r of
               b1 # b2 # b3 # _ \<Rightarrow>
                 if (if b0 = 0xF0 then 0x90 else 0x80) \<le> b1
                    \<and> b1 \<le> (if b0 = 0xF4 then 0x8F else 0xBF) \<and> cont_byte b2 \<and> cont_byte b3
                 then ((b0 - 0xF0) * 262144 + (b1 - 0x80) * 4096 + (b2 - 0x80) * 64
                       + (b3 - 0x80), 4)
                 else (RuneError, 1)
             | _ \<Rightarrow> (RuneError, 1))
          else (RuneError, 1))"

lemma DecodeRune_width: "s \<noteq> [] \<Longrightarrow> 0 < snd (DecodeRune s)"
  by (auto simp: DecodeRune_def split: list.splits)

function runes :: "nat list \<Rightarrow> nat list" where
  "runes s = (if s = [] then [] else fst (DecodeRune s) # runes (drop (snd (DecodeRune s)) s))"
  by pat_completeness auto
termination
  by (relation "measure length") (auto simp: DecodeRune_width)

declare runes.simps [simp del]

definition IsSpace :: "nat \<Rightarrow> bool" where
  "IsSpace r =
     (if r \<le> 0xFF then r \<in> {0x09, 0x0A, 0x0B, 0x0C, 0x0D, 0x20, 0x85, 0xA0}
      else r = 0x1680 \<or> (0x2000 \<le> r \<and> r \<le> 0x200A) \<or> r = 0x2028 \<or> r = 0x2029
           \<or> r = 0x202F \<or> r = 0x205F \<or> r = 0x3000)"

text \<open>
  \<open>FieldsFunc\<close> scans the runes once; \<open>cur\<close> is the field being read, empty between
  fields. A field ends at a white-space rune or at the end of the string.
\<close>

fun FieldsFunc :: "(nat \<Rightarrow> bool) \<Rightarrow> nat list \<Rightarrow> nat list \<Rightarrow> nat list list" where
  "FieldsFunc f cur [] = (if cur = [] then [] else [cur])"
| "FieldsFunc f cur (r # rs) =
     (if f r then (if cur = [] then FieldsFunc f [] rs else cur # FieldsFunc f [] rs)
      else FieldsFunc f (cur @ [r]) rs)"

definition Fields :: "string \<Rightarrow> nat list list" where
  "Fields text = FieldsFunc IsSpace [] (runes (map of_char text))"

definition CountWords :: "WordScorer \<Rightarrow> string \<Rightarrow> int" where
  "CountWords s text = int (length (Fields text))"

subsection \<open>Scoring\<close>

definition CalculateScore :: "(rat \<Rightarrow> int) \<Rightarrow> WordScorer \<Rightarrow> string \<Rightarrow> int" where
  "CalculateScore conv s text =
     (let wordCount = CountWords s text in
      if wordCount = 0 then MinScore (config s)
      else if ThresholdWordsForMaxScore (config s) \<le> wordCount then MaxScore (config s)
      else
        let scoreRange = float64 (wrap64 (MaxScore (config s) - MinScore (config s)));
            progress = fdiv (float64 wordCount) (float64 (ThresholdWordsForMaxScore (config s)));
            calculatedScore = fadd (float64 (MinScore (config s))) (fmul progress scoreRange);
            finalScore = int_of_float64 conv (Round calculatedScore)
        in if finalScore < MinScore (config s) then MinScore (config s)
           else if MaxScore (config s) < finalScore then MaxScore (config s)
           else finalScore)"

definition default_config :: WordScorerConfig where
  "default_config = \<lparr>MinScore = 20, MaxScore = 40, ThresholdWordsForMaxScore = 50\<rparr>"

subsection \<open>Counting words, as the specification words it\<close>

text \<open>
  The specification splits the text on runs of white space and counts the tokens that are
  not empty. \<open>split_runs\<close> cuts the runes at every maximal run of white space: the
  tokens before the first run and after the last one may be empty.
\<close>

function split_runs :: "(nat \<Rightarrow> bool) \<Rightarrow> nat list \<Rightarrow> nat list list" where
  "split_runs f rs =
     (let tok = takeWhile (\<lambda>r. \<not> f r) rs; rest = dropWhile (\<lambda>r. \<not> f r) rs
      in if rest = [] then [tok] else tok # split_runs f (dropWhile f rest))"
  by pat_completeness auto
termination
proof (relation "measure (\<lambda>(f, rs). length rs)")
  show "wf (measure (\<lambda>(f, rs). length rs))" by simp
next
  fix f :: "nat \<Rightarrow> bool" and rs tok rest :: "nat list"
  assume r: "rest = dropWhile (\<lambda>r. \<not> f r) rs" and ne: "rest \<noteq> []"
  from ne obtain x xs where c: "rest = x # xs" by (cases rest) auto
  with r have "f x" by (metis hd_dropWhile list.sel(1) ne)
  then have "length (dropWhile f rest) \<le> length xs"
    using c by (simp add: length_dropWhile_le)
  also have "length xs < length rest" using c by simp
  also have "length rest \<le> length rs" using r by (simp add: length_dropWhile_le)
  finally show "((f, dropWhile f rest), (f, rs)) \<in> measure (\<lambda>(f, rs). length rs)"
    by simp
qed

declare split_runs.simps [simp del]

definition spec_countWords :: "string \<Rightarrow> int" where
  "spec_countWords text =
     int (length (filter (\<lambda>t. t \<noteq> []) (split_runs IsSpace (runes (map of_char text)))))"

subsection \<open>The score, as the specification words it\<close>



text \<open>
  \<open>interpolated\<close> names the value of \<open>finalScore\<close> in \<open>CalculateScore\<close> before the
  clamp, for a word count below the threshold.
\<close>

definition interpolated :: "(rat \<Rightarrow> int) \<Rightarrow> WordScorerConfig \<Rightarrow> int \<Rightarrow> int" where
  "interpolated conv c w =
     int_of_float64 conv (Round (fadd (float64 (MinScore c))
       (fmul (fdiv (float64 w) (float64 (ThresholdWordsForMaxScore c)))
          (float64 (wrap64 (MaxScore c - MinScore c))))))"

subsection \<open>The HTTP handler\<close>

record ScoreRequest =
  TextToScore :: string

record ScoreResponse =
  OriginalText :: string
  WordCount :: int
  Score :: int
  Message :: string

record ScoreHandler =
  scorer :: "WordScorer option"


text \<open>
  The request body as the JSON decoder sees it: a body it rejects, with its error text
  (a syntax error, or a \<open>documentText\<close> that is not a string), or an object, with the
  string of its member \<open>documentText\<close> when it has one.
\<close>

datatype json_body = Malformed error | Object "string option"

definition required_error :: error where
  "required_error = ''Key: 'ScoreRequest.TextToScore' Error:Field validation for 'TextToScore' failed on the 'required' tag''"

text \<open>
  \<open>ShouldBindJSON\<close> decodes the body into a \<open>ScoreRequest\<close>, an absent member leaving
  the empty string, and then checks the tag \<open>binding:"required"\<close>, which rejects the
  empty string.
\<close>

definition ShouldBindJSON :: "json_body \<Rightarrow> error + ScoreRequest" where
  "ShouldBindJSON body =
     (case body of
        Malformed e \<Rightarrow> Inl e
      | Object m \<Rightarrow>
          let requestBody = \<lparr>TextToScore = (case m of None \<Rightarrow> [] | Some t \<Rightarrow> t)\<rparr>
          in if TextToScore requestBody = [] then Inl required_error else Inr requestBody)"

definition PostScore :: "(rat \<Rightarrow> int) \<Rightarrow> ScoreHandler \<Rightarrow> json_body \<Rightarrow> nat \<times> ScoreResponse" where
  "PostScore conv h body =
     (case ShouldBindJSON body of
        Inl err \<Rightarrow>
          (400, \<lparr>OriginalText = [], WordCount = 0, Score = 0,
                 Message = ''Invalid request body: '' @ err\<rparr>)
      | Inr requestBody \<Rightarrow>
          (case scorer h of
             None \<Rightarrow>
               (500, \<lparr>OriginalText = [], WordCount = 0, Score = 0,
                      Message = ''Server configuration error: scorer not available.''\<rparr>)
           | Some sc \<Rightarrow>
               let text = TextToScore requestBody;
                   wordCount = CountWords sc text;
                   score = CalculateScore conv sc text
               in (200, \<lparr>OriginalText = [], WordCount = wordCount, Score = score,
                         Message = ''Scoring successful''\<rparr>)))"




text \<open>\<open>calculated\<close> names the value of \<open>calculatedScore\<close> in \<open>CalculateScore\<close>.\<close>

definition calculated :: "WordScorerConfig \<Rightarrow> int \<Rightarrow> rat" where
  "calculated c w =
     fadd (float64 (MinScore c))
       (fmul (fdiv (float64 w) (float64 (ThresholdWordsForMaxScore c)))
          (float64 (wrap64 (MaxScore c - MinScore c))))"

section \<open>Properties\<close>

lemma valid_default_config: "valid_config default_config"
  by (simp add: valid_config_def default_config_def in_int64_def)

lemma FieldsFunc_all_space: "list_all f rs \<Longrightarrow> FieldsFunc f [] rs = []"
  by (induction rs) auto

subsection \<open>Construction\<close>

lemma NewWordScorer_valid:
  "valid_config c \<Longrightarrow> NewWordScorer logOutput c = (Some \<lparr>config = c\<rparr>, None)"
  by (simp add: NewWordScorer_def valid_config_def)

lemma NewWordScorer_invalid_no_scorer:
  "MinScore c < 0 \<or> MaxScore c < MinScore c \<or> ThresholdWordsForMaxScore c \<le> 0
   \<Longrightarrow> fst (NewWordScorer logOutput c) = None"
  by (auto simp: NewWordScorer_def)

text \<open>
  Claim C1. Construction from a configuration that violates an invariant should return a
  non-nil error. The error returned is the result of the log write: when the write
  succeeds, a negative \<open>MinScore\<close> yields a nil scorer together with a nil error.
\<close>

theorem NewWordScorer_invalid_nil_error:
  "NewWordScorer log_ok \<lparr>MinScore = - 1, MaxScore = 40, ThresholdWordsForMaxScore = 50\<rparr>
     = (None, None)"
  by (simp add: NewWordScorer_def log_ok_def)

subsection \<open>The early returns and the clamp\<close>

text \<open>
  Claim C3. For every valid configuration and every text, the score lies in the closed
  interval from \<open>MinScore\<close> to \<open>MaxScore\<close>, whatever the implementation does on a
  conversion out of range.
\<close>

theorem CalculateScore_in_range:
  "valid_config (config s) \<Longrightarrow>
   MinScore (config s) \<le> CalculateScore conv s text
   \<and> CalculateScore conv s text \<le> MaxScore (config s)"
  by (auto simp: CalculateScore_def valid_config_def Let_def)

theorem CalculateScore_in_range_witness:
  "valid_config (config \<lparr>config = default_config\<rparr>)
   \<and> 20 \<le> CalculateScore conv_amd64 \<lparr>config = default_config\<rparr> ''hello world''
   \<and> CalculateScore conv_amd64 \<lparr>config = default_config\<rparr> ''hello world'' \<le> 40"
  using CalculateScore_in_range [of "\<lparr>config = default_config\<rparr>" conv_amd64 "''hello world''"]
  by (simp add: valid_default_config) (simp add: default_config_def)

text \<open>
  Claim C5. For every valid configuration, a text whose word count is at least the
  threshold scores \<open>MaxScore\<close>; with the default configuration a text of 60 words
  scores 40.
\<close>

theorem CalculateScore_at_threshold:
  "valid_config (config s) \<Longrightarrow>
   (ThresholdWordsForMaxScore (config s) \<le> CountWords s text
      \<longrightarrow> CalculateScore conv s text = MaxScore (config s))
   \<and> (config s = default_config \<longrightarrow> CountWords s text = 60
      \<longrightarrow> CalculateScore conv s text = 40)"
  by (auto simp: CalculateScore_def valid_config_def Let_def default_config_def)

theorem CalculateScore_at_threshold_witness:
  "valid_config (config \<lparr>config = default_config\<rparr>)
   \<and> CountWords \<lparr>config = default_config\<rparr>
        ''w w w w w w w w w w w w w w w w w w w w w w w w w w w w w w w w w w w w w w w w w w w w w w w w w w w w w w w w w w w w'' = 60
   \<and> CalculateScore conv_amd64 \<lparr>config = default_config\<rparr>
        ''w w w w w w w w w w w w w w w w w w w w w w w w w w w w w w w w w w w w w w w w w w w w w w w w w w w w w w w w w w w w'' = 40"
proof -
  let ?s = "\<lparr>config = default_config\<rparr>"
  let ?t = "''w w w w w w w w w w w w w w w w w w w w w w w w w w w w w w w w w w w w w w w w w w w w w w w w w w w w w w w w w w w w''"
  have n: "CountWords ?s ?t = 60"
    by (simp add: CountWords_def Fields_def runes.simps DecodeRune_def IsSpace_def)
  have v: "valid_config (config ?s)"
    by (simp add: valid_default_config)
  from CalculateScore_at_threshold [OF v, of ?t conv_amd64] n v show ?thesis
    by simp
qed

text \<open>
  Claim C6. For every valid configuration, a text without words (the empty string, or
  white space only) scores \<open>MinScore\<close>, which is 20 in the default configuration.
\<close>

theorem CalculateScore_no_words:
  "valid_config (config s) \<Longrightarrow>
   CountWords s text = 0 \<or> list_all IsSpace (runes (map of_char text)) \<Longrightarrow>
   CalculateScore conv s text = MinScore (config s)
   \<and> (config s = default_config \<longrightarrow> CalculateScore conv s text = 20)"
  by (auto simp: CalculateScore_def CountWords_def Fields_def FieldsFunc_all_space
      default_config_def)

theorem CalculateScore_no_words_witness:
  "valid_config (config \<lparr>config = default_config\<rparr>)
   \<and> CountWords \<lparr>config = default_config\<rparr> [] = 0
   \<and> CalculateScore conv_amd64 \<lparr>config = default_config\<rparr> [] = 20"
proof -
  let ?s = "\<lparr>config = default_config\<rparr>"
  have n: "CountWords ?s [] = 0"
    by (simp add: CountWords_def Fields_def runes.simps)
  have v: "valid_config (config ?s)"
    by (simp add: valid_default_config)
  from CalculateScore_no_words [OF v, of "[]" conv_amd64] n v show ?thesis
    by simp
qed

text \<open>
  Claim C9. The score is a function of the word count alone: two texts with the same
  number of words receive the same score. The scorer is a value that no call changes,
  and scoring has no error result.
\<close>

theorem CalculateScore_depends_on_count:
  "CountWords s t1 = CountWords s t2 \<Longrightarrow> CalculateScore conv s t1 = CalculateScore conv s t2"
  by (simp add: CalculateScore_def)

theorem CalculateScore_depends_on_count_witness:
  "CountWords \<lparr>config = default_config\<rparr> ''a b'' = CountWords \<lparr>config = default_config\<rparr> ''c  d''
   \<and> CalculateScore conv_amd64 \<lparr>config = default_config\<rparr> ''a b''
       = CalculateScore conv_amd64 \<lparr>config = default_config\<rparr> ''c  d''"
proof -
  let ?s = "\<lparr>config = default_config\<rparr>"
  have n: "CountWords ?s ''a b'' = CountWords ?s ''c  d''"
    by (simp add: CountWords_def Fields_def runes.simps DecodeRune_def IsSpace_def)
  from CalculateScore_depends_on_count [OF n, of conv_amd64] n show ?thesis
    by simp
qed

subsection \<open>Word count\<close>

lemma split_runs_Nil: "split_runs f [] = [[]]"
  by (simp add: split_runs.simps)

lemma split_runs_space: "f r \<Longrightarrow> split_runs f (r # rs) = [] # split_runs f (dropWhile f rs)"
  by (subst split_runs.simps) simp

lemma split_runs_nonspace:
  "\<not> f r \<Longrightarrow> split_runs f (r # rs) = (r # hd (split_runs f rs)) # tl (split_runs f rs)"
  by (simp add: split_runs.simps [of f "r # rs"] split_runs.simps [of f rs] Let_def)

lemma split_runs_not_Nil: "split_runs f rs \<noteq> []"
  by (subst split_runs.simps) (simp add: Let_def)

lemma filter_split_runs_dropWhile:
  "filter (\<lambda>t. t \<noteq> []) (split_runs f (dropWhile f rs)) = filter (\<lambda>t. t \<noteq> []) (split_runs f rs)"
  by (cases rs) (auto simp: split_runs_space)

lemma FieldsFunc_split_runs:
  "FieldsFunc f cur rs =
     filter (\<lambda>t. t \<noteq> []) ((cur @ hd (split_runs f rs)) # tl (split_runs f rs))"
proof (induction rs arbitrary: cur)
  case Nil
  then show ?case by (simp add: split_runs_Nil)
next
  case (Cons r rs)
  show ?case
  proof (cases "f r")
    case True
    have "FieldsFunc f [] rs = filter (\<lambda>t. t \<noteq> []) (split_runs f rs)"
      using Cons.IH [of "[]"] split_runs_not_Nil [of f rs] by simp
    then show ?thesis
      using True by (simp add: split_runs_space filter_split_runs_dropWhile)
  next
    case False
    then show ?thesis
      using Cons.IH [of "cur @ [r]"] by (simp add: split_runs_nonspace)
  qed
qed

text \<open>
  Claim C7. \<open>CountWords\<close> returns the number of non-empty tokens obtained by splitting
  the text on maximal runs of white space; the empty string has no word and
  \<open>a b  c\<close>, with two spaces before \<open>c\<close>, has three.
\<close>

theorem CountWords_refines_spec: "CountWords s text = spec_countWords text
  \<and> CountWords s '''' = 0 \<and> CountWords s ''a b  c'' = 3"
proof -
  have "Fields text = filter (\<lambda>t. t \<noteq> []) (split_runs IsSpace (runes (map of_char text)))"
    using FieldsFunc_split_runs [of IsSpace "[]"] split_runs_not_Nil [of IsSpace]
    by (simp add: Fields_def)
  then have "CountWords s text = spec_countWords text"
    by (simp add: CountWords_def spec_countWords_def)
  moreover have "CountWords s '''' = 0"
    by (simp add: CountWords_def Fields_def runes.simps)
  moreover have "CountWords s ''a b  c'' = 3"
    by (simp add: CountWords_def Fields_def runes.simps DecodeRune_def IsSpace_def)
  ultimately show ?thesis by simp
qed

subsection \<open>Rounding to float64\<close>

lemma bitlen_pos: "0 < n \<Longrightarrow> 0 < bitlen n"
  by (subst bitlen.simps) simp

lemma bitlen_bounds:
  "0 < n \<Longrightarrow> 2 ^ (bitlen n - 1) \<le> n \<and> n < 2 ^ bitlen n"
proof (induction n rule: bitlen.induct)
  case (1 n)
  show ?case
  proof (cases "n div 2 \<le> 0")
    case True
    with 1 have "n = 1" by presburger
    then show ?thesis
      by (simp add: bitlen.simps [of 1] bitlen.simps [of 0])
  next
    case False
    then have p: "0 < n div 2" by simp
    have n0: "\<not> n \<le> 0" using 1 by simp
    from 1 p n0 have ih: "2 ^ (bitlen (n div 2) - 1) \<le> n div 2"
      "n div 2 < 2 ^ bitlen (n div 2)" by auto
    have b: "bitlen n = Suc (bitlen (n div 2))"
      using n0 by (subst bitlen.simps) simp
    from bitlen_pos [OF p] obtain k where k: "bitlen (n div 2) = Suc k"
      by (cases "bitlen (n div 2)") auto
    have "2 * 2 ^ k \<le> 2 * (n div 2)" using ih(1) k by simp
    also have "\<dots> \<le> n" by presburger
    finally have lo: "2 ^ (bitlen n - 1) \<le> n" using b k by simp
    have "n < 2 * (n div 2) + 2" by presburger
    also have "\<dots> \<le> 2 * 2 ^ bitlen (n div 2)" using ih(2) by simp
    finally have "n < 2 ^ bitlen n" using b by simp
    with lo show ?thesis by simp
  qed
qed

lemma round_even_of_int: "round_even (of_int n) = n"
  by (simp add: round_even_def)

lemma round_even_cases: "round_even y = \<lfloor>y\<rfloor> \<or> round_even y = \<lfloor>y\<rfloor> + 1"
  by (simp add: round_even_def Let_def)

lemma round_even_floor_le: "\<lfloor>y\<rfloor> \<le> round_even y"
  using round_even_cases [of y] by auto

lemma round_even_mono: "a \<le> b \<Longrightarrow> round_even a \<le> round_even b"
proof -
  assume ab: "a \<le> b"
  then have fl: "\<lfloor>a\<rfloor> \<le> \<lfloor>b\<rfloor>" by (rule floor_mono)
  show ?thesis
  proof (cases "\<lfloor>a\<rfloor> = \<lfloor>b\<rfloor>")
    case True
    then show ?thesis using ab by (auto simp: round_even_def Let_def)
  next
    case False
    with fl have "\<lfloor>a\<rfloor> + 1 \<le> \<lfloor>b\<rfloor>" by simp
    then show ?thesis
      using round_even_cases [of a] round_even_floor_le [of b] by linarith
  qed
qed


lemma ilog2_ge1:
  assumes "1 \<le> x"
  shows "2 powi ilog2 x \<le> x \<and> x < 2 powi (ilog2 x + 1)"
proof -
  define n where "n = \<lfloor>x\<rfloor>"
  have n: "0 < n" using assms by (simp add: n_def)
  from bitlen_pos [OF n] obtain k where k: "bitlen n = Suc k"
    by (cases "bitlen n") auto
  have e: "ilog2 x = int k" using assms k by (simp add: ilog2_def n_def)
  from bitlen_bounds [OF n] k have b: "2 ^ k \<le> n" "n < 2 ^ Suc k" by simp_all
  have "(of_int (2 ^ k) :: rat) \<le> of_int n" using b(1) by (simp only: of_int_le_iff)
  then have "(2::rat) ^ k \<le> of_int n" by simp
  also have "\<dots> \<le> x" by (simp add: n_def)
  finally have lo: "2 powi ilog2 x \<le> x" by (simp add: e)
  have "n + 1 \<le> 2 ^ Suc k" using b(2) by simp
  then have "(of_int (n + 1) :: rat) \<le> of_int (2 ^ Suc k)" by (simp only: of_int_le_iff)
  then have "(of_int (n + 1) :: rat) \<le> 2 ^ Suc k" by simp
  moreover have "x < of_int (n + 1)" unfolding n_def by linarith
  ultimately have "x < 2 ^ Suc k" by simp
  moreover have "ilog2 x + 1 = int (Suc k)" using e by simp
  ultimately have "x < 2 powi (ilog2 x + 1)"
    by (simp only: power_int_of_nat)
  with lo show ?thesis by simp
qed

lemma ilog2_lt1:
  assumes "0 < x" "x < 1"
  shows "2 powi ilog2 x \<le> x \<and> x < 2 powi (ilog2 x + 1)"
proof -
  define y where "y = 1 / x"
  define m where "m = \<lceil>y\<rceil>"
  have y1: "1 < y" using assms by (simp add: y_def)
  then have c: "2 \<le> m" by (simp add: m_def le_ceiling_iff)
  then have m: "0 < m - 1" by simp
  from bitlen_pos [OF m] obtain k where k: "bitlen (m - 1) = Suc k"
    by (cases "bitlen (m - 1)") auto
  have e: "ilog2 x = - int (Suc k)" using assms k by (simp add: ilog2_def m_def y_def)
  from bitlen_bounds [OF m] k have b: "2 ^ k \<le> m - 1" "m - 1 < 2 ^ Suc k" by simp_all
  have "m \<le> 2 ^ Suc k" using b(2) by simp
  then have "(of_int m :: rat) \<le> of_int (2 ^ Suc k)" by (simp only: of_int_le_iff)
  then have "(of_int m :: rat) \<le> 2 ^ Suc k" by simp
  moreover have "y \<le> of_int m" by (simp add: m_def)
  ultimately have yu: "y \<le> 2 ^ Suc k" by simp
  have "2 ^ k + 1 \<le> m" using b(1) by simp
  then have "(of_int (2 ^ k + 1) :: rat) \<le> of_int m" by (simp only: of_int_le_iff)
  then have "(2::rat) ^ k + 1 \<le> of_int m" by simp
  moreover have "of_int m < y + 1" unfolding m_def by linarith
  ultimately have yl: "2 ^ k < y" by simp
  have p: "(0::rat) < 2 ^ Suc k" "(0::rat) < 2 ^ k" by simp_all
  have "1 / 2 ^ Suc k \<le> x"
    using yu assms(1) p unfolding y_def by (simp add: field_simps)
  then have lo: "2 powi ilog2 x \<le> x"
    by (simp only: e power_int_minus_divide power_int_of_nat)
  have "x < 1 / 2 ^ k"
    using yl assms(1) p unfolding y_def by (simp add: field_simps)
  moreover have "ilog2 x + 1 = - int k" using e by simp
  ultimately have "x < 2 powi (ilog2 x + 1)"
    by (simp only: power_int_minus_divide power_int_of_nat)
  with lo show ?thesis by simp
qed

lemma ilog2_bounds:
  "0 < x \<Longrightarrow> 2 powi ilog2 x \<le> x \<and> x < 2 powi (ilog2 x + 1)"
  using ilog2_ge1 [of x] ilog2_lt1 [of x] by (cases "1 \<le> x") auto

lemma two_powi_pos: "(0::rat) < 2 powi e"
  by (simp add: zero_less_power_int)

lemma two_powi_split: "(2::rat) powi (e + k) = 2 powi e * 2 powi k"
  by (simp add: power_int_add)

lemma two_powi_less_exp:
  assumes "(2::rat) powi a < 2 powi b"
  shows "a < b"
proof (rule ccontr)
  assume "\<not> a < b"
  then have "b \<le> a" by simp
  then have "(2::rat) powi b \<le> 2 powi a" by (rule power_int_increasing) simp
  with assms show False by simp
qed

lemma fl_0: "fl 0 = 0"
  by (simp add: fl_def)

lemma fl_pos_eq:
  "0 < x \<Longrightarrow> fl x = of_int (round_even (x / 2 powi (ilog2 x - 52))) * 2 powi (ilog2 x - 52)"
  by (simp add: fl_def Let_def)

lemma fl_pos_bounds:
  assumes "0 < x"
  shows "2 powi ilog2 x \<le> fl x \<and> fl x \<le> 2 powi (ilog2 x + 1)"
proof -
  define u :: rat where "u = 2 powi (ilog2 x - 52)"
  have u: "0 < u" by (simp add: u_def two_powi_pos)
  have a: "2 powi ilog2 x = 2 ^ 52 * u"
    using two_powi_split [of 52 "ilog2 x - 52"] by (simp add: u_def)
  have b: "2 powi (ilog2 x + 1) = 2 ^ 53 * u"
    using two_powi_split [of 53 "ilog2 x - 52"] by (simp add: u_def add.commute)
  from ilog2_bounds [OF assms] a b have "2 ^ 52 * u \<le> x" "x \<le> 2 ^ 53 * u" by simp_all
  then have "of_int (2 ^ 52) \<le> x / u" "x / u \<le> of_int (2 ^ 53)"
    using u by (simp_all add: field_simps)
  then have "round_even (of_int (2 ^ 52)) \<le> round_even (x / u)"
    "round_even (x / u) \<le> round_even (of_int (2 ^ 53))"
    by (auto intro: round_even_mono)
  then have "2 ^ 52 \<le> round_even (x / u)" "round_even (x / u) \<le> 2 ^ 53"
    by (simp_all only: round_even_of_int)
  then have "(of_int (2 ^ 52) :: rat) \<le> of_int (round_even (x / u))"
    "(of_int (round_even (x / u)) :: rat) \<le> of_int (2 ^ 53)"
    by (simp_all only: of_int_le_iff)
  then have "2 ^ 52 * u \<le> of_int (round_even (x / u)) * u"
    "of_int (round_even (x / u)) * u \<le> 2 ^ 53 * u"
    using u by simp_all
  then show ?thesis
    using fl_pos_eq [OF assms] a b by (simp add: u_def)
qed

lemma fl_pos:
  assumes "0 < x"
  shows "0 < fl x"
proof -
  have "(0::rat) < 2 powi ilog2 x" by (rule two_powi_pos)
  also have "\<dots> \<le> fl x" using fl_pos_bounds [OF assms] by simp
  finally show ?thesis .
qed

lemma fl_mono_pos:
  assumes "0 < x" "x \<le> y"
  shows "fl x \<le> fl y"
proof -
  have y: "0 < y" using assms by simp
  have "2 powi ilog2 x \<le> x" using ilog2_bounds [OF assms(1)] by simp
  also have "x \<le> y" by fact
  also have "y < 2 powi (ilog2 y + 1)" using ilog2_bounds [OF y] by simp
  finally have "ilog2 x < ilog2 y + 1" by (rule two_powi_less_exp)
  then consider "ilog2 x = ilog2 y" | "ilog2 x + 1 \<le> ilog2 y" by linarith
  then show ?thesis
  proof cases
    case 1
    define u :: rat where "u = 2 powi (ilog2 x - 52)"
    have u: "0 < u" by (simp add: u_def two_powi_pos)
    have "x / u \<le> y / u" using assms(2) u by (simp add: divide_right_mono)
    then have "round_even (x / u) \<le> round_even (y / u)" by (rule round_even_mono)
    then have "(of_int (round_even (x / u)) :: rat) \<le> of_int (round_even (y / u))"
      by (simp only: of_int_le_iff)
    then have "of_int (round_even (x / u)) * u \<le> of_int (round_even (y / u)) * u"
      using u by simp
    then show ?thesis
      using fl_pos_eq [OF assms(1)] fl_pos_eq [OF y] 1 by (simp add: u_def)
  next
    case 2
    have "fl x \<le> 2 powi (ilog2 x + 1)" using fl_pos_bounds [OF assms(1)] by simp
    also have "\<dots> \<le> 2 powi ilog2 y" using 2 by (rule power_int_increasing) simp
    also have "\<dots> \<le> fl y" using fl_pos_bounds [OF y] by simp
    finally show ?thesis .
  qed
qed

lemma fl_nonneg: "0 \<le> x \<Longrightarrow> 0 \<le> fl x"
  using fl_pos [of x] by (cases "x = 0") (auto simp: fl_0 less_imp_le)

lemma fl_mono: "0 \<le> x \<Longrightarrow> x \<le> y \<Longrightarrow> fl x \<le> fl y"
  using fl_mono_pos [of x y] fl_nonneg [of y] by (cases "x = 0") (auto simp: fl_0)

lemma fl_exact:
  assumes "0 < x" "x / 2 powi (ilog2 x - 52) = of_int k"
  shows "fl x = x"
proof -
  have "fl x = of_int k * 2 powi (ilog2 x - 52)"
    using fl_pos_eq [OF assms(1)] assms(2) by (simp add: round_even_of_int)
  also have "\<dots> = x"
    using assms(2) two_powi_pos [of "ilog2 x - 52"] by (simp add: field_simps)
  finally show ?thesis .
qed

lemma fl_exact_int:
  assumes "0 \<le> n" "n \<le> 2 ^ 53"
  shows "fl (of_int n) = of_int n"
proof (cases "n = 0")
  case True
  then show ?thesis by (simp add: fl_0)
next
  case False
  with assms have p: "(0::rat) < of_int n" by simp
  define e where "e = ilog2 (of_int n)"
  have lo: "2 powi e \<le> (of_int n :: rat)" and hi: "(of_int n :: rat) < 2 powi (e + 1)"
    using ilog2_bounds [OF p] by (simp_all add: e_def)
  have "(of_int n :: rat) \<le> of_int (2 ^ 53)" using assms(2) by (simp only: of_int_le_iff)
  then have le53: "(of_int n :: rat) \<le> 2 powi 53" by simp
  have "(2::rat) powi 53 < 2 powi 54" by simp
  with lo le53 have "(2::rat) powi e < 2 powi 54" by linarith
  then have e53: "e \<le> 53" using two_powi_less_exp [of e 54] by simp
  show ?thesis
  proof (cases "e = 53")
    case True
    with lo have "(2::rat) ^ 53 \<le> of_int n" by simp
    then have "(of_int (2 ^ 53) :: rat) \<le> of_int n" by simp
    then have "2 ^ 53 \<le> n" by (simp only: of_int_le_iff)
    with assms(2) have n: "n = 2 ^ 53" by simp
    have ee: "ilog2 (of_int n) = 53" using True by (simp add: e_def)
    have "(of_int n :: rat) / 2 powi (ilog2 (of_int n) - 52) = of_int (2 ^ 52)"
      by (simp only: ee) (simp add: n)
    from fl_exact [OF p this] show ?thesis .
  next
    case False
    with e53 have "0 \<le> 52 - e" by simp
    then obtain j where j: "52 - e = int j" using nonneg_int_cases by blast
    then have "e - 52 = - int j" by simp
    then have "(2::rat) powi (e - 52) = 1 / 2 ^ j"
      by (simp only: power_int_minus_divide power_int_of_nat)
    then have "(of_int n :: rat) / 2 powi (ilog2 (of_int n) - 52) = of_int (n * 2 ^ j)"
      by (simp add: e_def [symmetric])
    from fl_exact [OF p this] show ?thesis .
  qed
qed



subsection \<open>The interpolated value\<close>

lemma CalculateScore_interpolated:
  "0 < CountWords s text \<Longrightarrow> CountWords s text < ThresholdWordsForMaxScore (config s) \<Longrightarrow>
   CalculateScore conv s text =
     (let f = interpolated conv (config s) (CountWords s text)
      in if f < MinScore (config s) then MinScore (config s)
         else if MaxScore (config s) < f then MaxScore (config s) else f)"
  by (simp add: CalculateScore_def interpolated_def Let_def)

lemma wrap64_id: "in_int64 n \<Longrightarrow> wrap64 n = n"
  by (simp add: wrap64_def in_int64_def)

lemma valid_range:
  "valid_config c \<Longrightarrow> wrap64 (MaxScore c - MinScore c) = MaxScore c - MinScore c
     \<and> 0 \<le> MaxScore c - MinScore c"
  by (simp add: valid_config_def wrap64_def in_int64_def)

lemma float64_nonneg: "0 \<le> n \<Longrightarrow> 0 \<le> float64 n"
  by (simp add: float64_def fl_nonneg)

lemma float64_pos: "0 < n \<Longrightarrow> 0 < float64 n"
  by (simp add: float64_def fl_pos)

lemma float64_mono: "0 \<le> a \<Longrightarrow> a \<le> b \<Longrightarrow> float64 a \<le> float64 b"
  by (simp add: float64_def fl_mono)

lemma float64_exact: "0 \<le> n \<Longrightarrow> n \<le> 2 ^ 53 \<Longrightarrow> float64 n = of_int n"
  by (simp add: float64_def fl_exact_int)

lemma progress_mono:
  assumes "0 < t" "0 \<le> w1" "w1 \<le> w2"
  shows "0 \<le> fdiv (float64 w1) (float64 t)"
    and "fdiv (float64 w1) (float64 t) \<le> fdiv (float64 w2) (float64 t)"
proof -
  have t: "0 < float64 t" using assms(1) by (rule float64_pos)
  have w: "0 \<le> float64 w1" "float64 w1 \<le> float64 w2"
    using assms by (simp_all add: float64_nonneg float64_mono)
  then have q: "0 \<le> float64 w1 / float64 t" "float64 w1 / float64 t \<le> float64 w2 / float64 t"
    using t by (simp_all add: divide_right_mono)
  show "0 \<le> fdiv (float64 w1) (float64 t)" using q(1) by (simp add: fdiv_def fl_nonneg)
  show "fdiv (float64 w1) (float64 t) \<le> fdiv (float64 w2) (float64 t)"
    using q by (simp add: fdiv_def fl_mono)
qed

lemma calculated_mono:
  assumes "valid_config c" "0 \<le> w1" "w1 \<le> w2"
  shows "0 \<le> calculated c w1" and "calculated c w1 \<le> calculated c w2"
proof -
  let ?t = "ThresholdWordsForMaxScore c"
  let ?R = "float64 (wrap64 (MaxScore c - MinScore c))"
  have t: "0 < ?t" and m: "0 \<le> MinScore c" using assms(1) by (simp_all add: valid_config_def)
  have R: "0 \<le> ?R" using valid_range [OF assms(1)] by (simp add: float64_nonneg)
  note p = progress_mono [OF t assms(2,3)]
  have q: "0 \<le> fdiv (float64 w1) (float64 ?t) * ?R"
    "fdiv (float64 w1) (float64 ?t) * ?R \<le> fdiv (float64 w2) (float64 ?t) * ?R"
    using p R by (simp_all add: mult_right_mono)
  then have f: "0 \<le> fmul (fdiv (float64 w1) (float64 ?t)) ?R"
    "fmul (fdiv (float64 w1) (float64 ?t)) ?R \<le> fmul (fdiv (float64 w2) (float64 ?t)) ?R"
    by (simp_all add: fmul_def fl_nonneg fl_mono)
  have m': "0 \<le> float64 (MinScore c)" using m by (rule float64_nonneg)
  show "0 \<le> calculated c w1"
    using f(1) m' by (simp add: calculated_def fadd_def fl_nonneg)
  show "calculated c w1 \<le> calculated c w2"
    using f m' by (simp add: calculated_def fadd_def fl_mono)
qed

lemma calculated_bounds:
  assumes "valid_config c" "MaxScore c \<le> 2 ^ 53" "0 \<le> w" "w \<le> ThresholdWordsForMaxScore c"
  shows "of_int (MinScore c) \<le> calculated c w" and "calculated c w \<le> of_int (MaxScore c)"
proof -
  let ?t = "ThresholdWordsForMaxScore c"
  have v: "0 \<le> MinScore c" "MinScore c \<le> MaxScore c" "0 < ?t"
    using assms(1) by (simp_all add: valid_config_def)
  have R: "float64 (wrap64 (MaxScore c - MinScore c)) = of_int (MaxScore c - MinScore c)"
    using valid_range [OF assms(1)] v assms(2) by (simp add: float64_exact)
  have m: "float64 (MinScore c) = of_int (MinScore c)"
    using v assms(2) by (simp add: float64_exact)
  have M: "fl (of_int (MaxScore c)) = of_int (MaxScore c)"
    using v assms(2) by (simp add: fl_exact_int)
  have t: "0 < float64 ?t" using v(3) by (rule float64_pos)
  have "float64 w \<le> float64 ?t" using assms(3,4) by (rule float64_mono)
  then have "float64 w / float64 ?t \<le> 1" using t by simp
  moreover have "0 \<le> float64 w / float64 ?t"
    using t float64_nonneg [OF assms(3)] by simp
  ultimately have "fl (float64 w / float64 ?t) \<le> fl 1" by (rule fl_mono [rotated])
  moreover have "fl 1 = 1" using fl_exact_int [of 1] by simp
  ultimately have p1: "fdiv (float64 w) (float64 ?t) \<le> 1" by (simp add: fdiv_def)
  have p0: "0 \<le> fdiv (float64 w) (float64 ?t)"
    using progress_mono(1) [OF v(3) assms(3) order_refl] .
  let ?p = "fdiv (float64 w) (float64 ?t)"
  let ?r = "of_int (MaxScore c - MinScore c) :: rat"
  have r0: "0 \<le> ?r" using v by simp
  have "0 \<le> ?p * ?r" "?p * ?r \<le> ?r"
    using p0 p1 r0 by (simp_all add: mult_left_le_one_le)
  then have "0 \<le> fl (?p * ?r)" "fl (?p * ?r) \<le> fl ?r"
    by (simp_all add: fl_nonneg fl_mono)
  moreover have "fl ?r = ?r" using v assms(2) by (intro fl_exact_int) simp_all
  ultimately have q: "0 \<le> fmul ?p ?r" "fmul ?p ?r \<le> ?r" by (simp_all add: fmul_def)
  have m0: "(0::rat) \<le> of_int (MinScore c)" using v by simp
  have "fl (of_int (MinScore c)) \<le> fl (of_int (MinScore c) + fmul ?p ?r)"
    using q m0 by (intro fl_mono) simp_all
  then show "of_int (MinScore c) \<le> calculated c w"
    using m R by (simp add: calculated_def fadd_def float64_def)
  have "fl (of_int (MinScore c) + fmul ?p ?r) \<le> fl (of_int (MaxScore c))"
    using q m0 by (intro fl_mono) simp_all
  then show "calculated c w \<le> of_int (MaxScore c)"
    using m R M by (simp add: calculated_def fadd_def)
qed

lemma Round_nonneg: "0 \<le> x \<Longrightarrow> Round x = of_int \<lfloor>x + 1 / 2\<rfloor>"
  by (simp add: Round_def)

lemma int_of_float64_of_int:
  "int_of_float64 conv (of_int k) = (if in_int64 k then k else wrap64 (conv (of_int k)))"
  by (simp add: int_of_float64_def Let_def)


lemma interpolated_Round:
  "interpolated conv c w = int_of_float64 conv (Round (calculated c w))"
  by (simp add: interpolated_def calculated_def)

lemma interpolated_floor:
  assumes "valid_config c" "0 \<le> w"
  shows "interpolated conv c w =
    (if in_int64 \<lfloor>calculated c w + 1 / 2\<rfloor> then \<lfloor>calculated c w + 1 / 2\<rfloor>
     else wrap64 (conv (of_int \<lfloor>calculated c w + 1 / 2\<rfloor>)))"
  using calculated_mono(1) [OF assms order_refl]
  by (simp only: interpolated_Round Round_nonneg int_of_float64_of_int)

lemma interpolated_in_range:
  assumes "valid_config c" "MaxScore c \<le> 2 ^ 53" "0 \<le> w" "w \<le> ThresholdWordsForMaxScore c"
  shows "MinScore c \<le> interpolated conv c w \<and> interpolated conv c w \<le> MaxScore c"
proof -
  let ?k = "\<lfloor>calculated c w + 1 / 2\<rfloor>"
  note b = calculated_bounds [OF assms]
  have "of_int (MinScore c) \<le> calculated c w + 1 / 2" using b(1) by simp
  then have lo: "MinScore c \<le> ?k" by (simp only: le_floor_iff)
  have "calculated c w + 1 / 2 < of_int (MaxScore c + 1)" using b(2) by simp
  then have "?k < MaxScore c + 1" by (simp only: floor_less_iff)
  then have hi: "?k \<le> MaxScore c" by simp
  have "0 \<le> MinScore c" "MaxScore c < 2 ^ 63"
    using assms(1) by (simp_all add: valid_config_def in_int64_def)
  with lo hi have "in_int64 ?k"
    unfolding in_int64_def by linarith
  then show ?thesis
    using lo hi interpolated_floor [OF assms(1,3), of conv] by simp
qed







subsection \<open>Interpolation\<close>






subsection \<open>The clamp\<close>

lemma CountWords_a: "CountWords s ''a'' = 1"
  by (simp add: CountWords_def Fields_def runes.simps DecodeRune_def IsSpace_def)




text \<open>
  Claim C4, amended. For every valid configuration with \<open>MaxScore\<close> at most \<open>2 ^ 53\<close>
  and every text with a word count above 0 and below the threshold, the rounded
  interpolated value lies between \<open>MinScore\<close> and \<open>MaxScore\<close>: neither clamp branch
  is taken and the score is that value. Above \<open>2 ^ 53\<close> an integer need not be a
  float64, and the clamp is reached.
\<close>

theorem CalculateScore_clamp_unreachable:
  assumes "valid_config (config s)" "MaxScore (config s) \<le> 2 ^ 53"
    "0 < CountWords s text" "CountWords s text < ThresholdWordsForMaxScore (config s)"
  shows "MinScore (config s) \<le> interpolated conv (config s) (CountWords s text)
    \<and> interpolated conv (config s) (CountWords s text) \<le> MaxScore (config s)
    \<and> CalculateScore conv s text = interpolated conv (config s) (CountWords s text)"
proof -
  have "MinScore (config s) \<le> interpolated conv (config s) (CountWords s text)
    \<and> interpolated conv (config s) (CountWords s text) \<le> MaxScore (config s)"
    using assms by (intro interpolated_in_range) simp_all
  then show ?thesis
    using CalculateScore_interpolated [OF assms(3,4), of conv] by (simp add: Let_def)
qed

theorem CalculateScore_clamp_unreachable_witness:
  "valid_config (config \<lparr>config = default_config\<rparr>)
   \<and> MaxScore (config \<lparr>config = default_config\<rparr>) \<le> 2 ^ 53
   \<and> 0 < CountWords \<lparr>config = default_config\<rparr> ''hello world''
   \<and> CountWords \<lparr>config = default_config\<rparr> ''hello world''
       < ThresholdWordsForMaxScore (config \<lparr>config = default_config\<rparr>)
   \<and> CalculateScore conv_amd64 \<lparr>config = default_config\<rparr> ''hello world''
       = interpolated conv_amd64 default_config 2
   \<and> 20 \<le> interpolated conv_amd64 default_config 2
   \<and> interpolated conv_amd64 default_config 2 \<le> 40"
proof -
  let ?s = "\<lparr>config = default_config\<rparr>"
  have n: "CountWords ?s ''hello world'' = 2"
    by (simp add: CountWords_def Fields_def runes.simps DecodeRune_def IsSpace_def)
  have v: "valid_config (config ?s)" by (simp add: valid_default_config)
  have m: "MaxScore (config ?s) \<le> 2 ^ 53" by (simp add: default_config_def)
  have t: "CountWords ?s ''hello world'' < ThresholdWordsForMaxScore (config ?s)"
    using n by (simp add: default_config_def)
  have p: "0 < CountWords ?s ''hello world''" by (simp add: n)
  from CalculateScore_clamp_unreachable [OF v m p t, of conv_amd64] v m p t n show ?thesis
    by (simp add: default_config_def)
qed

text \<open>
  With \<open>MinScore = MaxScore = 2 ^ 53 + 3\<close> and a threshold of 2, one word gives the
  float64 \<open>2 ^ 53 + 4\<close>, above \<open>MaxScore\<close>: the upper clamp branch returns \<open>MaxScore\<close>.
\<close>

theorem CalculateScore_clamp_reached_counterexample:
  "valid_config \<lparr>MinScore = 9007199254740995, MaxScore = 9007199254740995,
      ThresholdWordsForMaxScore = 2\<rparr>
   \<and> CountWords \<lparr>config = \<lparr>MinScore = 9007199254740995, MaxScore = 9007199254740995,
      ThresholdWordsForMaxScore = 2\<rparr>\<rparr> ''a'' = 1
   \<and> interpolated conv_amd64 \<lparr>MinScore = 9007199254740995, MaxScore = 9007199254740995,
      ThresholdWordsForMaxScore = 2\<rparr> 1 = 9007199254740996
   \<and> CalculateScore conv_amd64 \<lparr>config = \<lparr>MinScore = 9007199254740995,
      MaxScore = 9007199254740995, ThresholdWordsForMaxScore = 2\<rparr>\<rparr> ''a'' = 9007199254740995"
proof -
  let ?c = "\<lparr>MinScore = 9007199254740995, MaxScore = 9007199254740995,
      ThresholdWordsForMaxScore = 2\<rparr>"
  have v: "valid_config ?c" by (simp add: valid_config_def in_int64_def)
  have i: "interpolated conv_amd64 ?c 1 = 9007199254740996"
    unfolding interpolated_def by code_simp
  have "CalculateScore conv_amd64 \<lparr>config = ?c\<rparr> ''a'' = 9007199254740995"
    using CalculateScore_interpolated [of "\<lparr>config = ?c\<rparr>" "''a''" conv_amd64] i
    by (simp add: CountWords_a Let_def)
  with v i show ?thesis by (simp add: CountWords_a)
qed

subsection \<open>Monotonicity\<close>







subsection \<open>The handler\<close>


lemma PostScore_bad_body:
  "body = Malformed e \<or> body = Object None \<or> body = Object (Some []) \<Longrightarrow>
   \<exists>err. PostScore conv h body =
     (400, \<lparr>OriginalText = [], WordCount = 0, Score = 0,
            Message = ''Invalid request body: '' @ err\<rparr>)"
  by (auto simp: PostScore_def ShouldBindJSON_def)






end
